theory Spec2Isabelle
  imports Main "HOL-Library.Multiset"
begin

section \<open>Package zfs: pool kinds, status tokens and the line handler (zfs/pool.go)\<close>

text \<open>
  \<^verbatim>\<open>type PoolStatus string\<close> and \<^verbatim>\<open>type PoolKind string\<close>: both are
  string types in the source, so any string is a value of them. The named constants
  are the strings the source gives them.
\<close>

type_synonym PoolStatus = string
type_synonym PoolKind = string

definition PoolProps :: PoolKind where
  "PoolProps = ''properties''"

definition PoolIostat :: PoolKind where
  "PoolIostat = ''iostats''"

definition PoolOnline :: PoolStatus where
  "PoolOnline = ''ONLINE''"

definition PoolDegraded :: PoolStatus where
  "PoolDegraded = ''DEGRADED''"

definition PoolFaulted :: PoolStatus where
  "PoolFaulted = ''FAULTED''"

definition PoolOffline :: PoolStatus where
  "PoolOffline = ''OFFLINE''"

definition PoolUnavail :: PoolStatus where
  "PoolUnavail = ''UNAVAIL''"

definition PoolRemoved :: PoolStatus where
  "PoolRemoved = ''REMOVED''"

definition PoolSuspended :: PoolStatus where
  "PoolSuspended = ''SUSPENDED''"

text \<open>
  Go's \<^verbatim>\<open>error\<close> values. \<open>ErrInvalidOutput\<close> is the package variable of that
  name (declared outside pool.go); \<open>Errorf\<close> carries the message that
  \<^verbatim>\<open>fmt.Errorf\<close> formats; \<open>ErrUnsupportedProperty\<close> is what a failed registry
  lookup reports; \<open>TransformError\<close> is the error of a value transform on the
  token it carries; \<open>OtherError\<close> stands for the errors of process execution.
\<close>

datatype error =
    ErrInvalidOutput
  | Errorf string
  | ErrUnsupportedProperty
  | TransformError string
  | OtherError string

text \<open>
  \<^verbatim>\<open>type poolPropertiesImpl struct { kind PoolKind; properties map[string]string }\<close>.
  The Go map is a partial function from keys to values.
\<close>

record poolPropertiesImpl =
  kind :: PoolKind
  properties :: "string \<rightharpoonup> string"

definition newPoolPropertiesImpl :: "PoolKind \<Rightarrow> poolPropertiesImpl" where
  "newPoolPropertiesImpl pkind = \<lparr>kind = pkind, properties = Map.empty\<rparr>"

text \<open>
  \<^verbatim>\<open>func (p *poolPropertiesImpl) processLine(pool string, line []string) error\<close>.
  The receiver is mutated in place; the model returns the handler after the call
  together with the returned error (\<open>None\<close> is Go's \<^verbatim>\<open>nil\<close>). The assignments to
  the map are made in the order of the source, keys as written there. The index
  expressions are only reached when the length test has passed (Go's \<^verbatim>\<open>||\<close> does
  not evaluate \<^verbatim>\<open>line[0]\<close> when the length differs).
\<close>

definition processLine ::
    "poolPropertiesImpl \<Rightarrow> string \<Rightarrow> string list \<Rightarrow> poolPropertiesImpl \<times> error option" where
  "processLine p pool line =
     (if kind p = PoolProps then
        (if length line \<noteq> 3 \<or> line ! 0 \<noteq> pool then (p, Some ErrInvalidOutput)
         else (p\<lparr>properties := (properties p)(line ! 1 \<mapsto> line ! 2)\<rparr>, None))
      else if kind p = PoolIostat then
        (if length line \<noteq> 7 \<or> line ! 0 \<noteq> pool then (p, Some ErrInvalidOutput)
         else
           (let m1 = (properties p)(''opread'' \<mapsto> line ! 3);
                m2 = m1(''opwrite'' \<mapsto> line ! 4);
                m3 = m2(''bwwrite'' \<mapsto> line ! 5);
                m4 = m3(''bwwrite'' \<mapsto> line ! 6)
            in (p\<lparr>properties := m4\<rparr>, None)))
      else (p, Some (Errorf (''unknown pool type: '' @ kind p @ '' xxxxxxx''))))"

text \<open>\<^verbatim>\<open>func (p *poolPropertiesImpl) getFieldsPerRecord() int\<close>\<close>

definition getFieldsPerRecord :: "poolPropertiesImpl \<Rightarrow> int" where
  "getFieldsPerRecord p =
     (if kind p = PoolProps then 3
      else if kind p = PoolIostat then 7
      else 3)"

text \<open>
  A run of \<open>processLine\<close> calls on one handler, one call per line in order, stopping
  at the first call that returns an error (the handler is returned as that call left it).
\<close>

fun processLines ::
    "poolPropertiesImpl \<Rightarrow> string \<Rightarrow> string list list \<Rightarrow> poolPropertiesImpl \<times> error option" where
  "processLines p pool [] = (p, None)"
| "processLines p pool (line # rest) =
     (case processLine p pool line of
        (p', Some err) \<Rightarrow> (p', Some err)
      | (p', None) \<Rightarrow> processLines p' pool rest)"

text \<open>
  \<^verbatim>\<open>type poolImpl struct { name string; kind PoolKind }\<close>. Record fields share one
  name space, so the field \<^verbatim>\<open>kind\<close> is written \<open>poolKind\<close> here.
\<close>

record poolImpl =
  name :: string
  poolKind :: PoolKind

definition newPoolImpl :: "string \<Rightarrow> PoolKind \<Rightarrow> poolImpl" where
  "newPoolImpl n k = \<lparr>name = n, poolKind = k\<rparr>"

text \<open>\<^verbatim>\<open>strings.Join(props, `,`)\<close>\<close>

fun Join :: "string list \<Rightarrow> string \<Rightarrow> string" where
  "Join [] sep = []"
| "Join [x] sep = x"
| "Join (x # y # zs) sep = x @ sep @ Join (y # zs) sep"

text \<open>
  \<^verbatim>\<open>func (p poolImpl) Properties(props ...string) (PoolProperties, error)\<close>.
  The function \<^verbatim>\<open>execute\<close> is declared outside pool.go; it is the parameter
  \<open>execute_fn\<close> here: it receives the pool name, the handler and the command line, and returns the handler
  as the command's output left it together with its error.
\<close>

type_synonym executor =
  "string \<Rightarrow> poolPropertiesImpl \<Rightarrow> string list \<Rightarrow> poolPropertiesImpl \<times> error option"

definition Properties ::
    "executor \<Rightarrow> poolImpl \<Rightarrow> string list \<Rightarrow> poolPropertiesImpl \<times> error option" where
  "Properties execute_fn p props =
     (let handler = newPoolPropertiesImpl (poolKind p) in
      if poolKind p = PoolProps then
        (case execute_fn (name p) handler
                [''zpool'', ''get'', ''-Hpo'', ''name,property,value'', Join props '','']
         of (h, Some err) \<Rightarrow> (h, Some err)
          | (h, None) \<Rightarrow> (h, None))
      else if poolKind p = PoolIostat then
        (case execute_fn (name p) handler [''zpool'', ''iostat'', ''-Hyp'']
         of (h, Some err) \<Rightarrow> (h, Some err)
          | (h, None) \<Rightarrow> (h, None))
      else (handler, Some (Errorf (''unknown pool type: '' @ poolKind p @ '' hhhhhhhh''))))"

text \<open>
  Modelled from the spec: the function \<^verbatim>\<open>execute\<close> is declared outside pool.go.
  The spec has the executor run the command with the resource name as its target
  argument, hand its output line by line, each line split into fields, to the line
  handler, and report a failure to start the process, a failure of the handler or a
  non-zero exit status as the error of the call. The external process is the parameter
  \<open>command\<close>: for an argument list, either the error of starting it, or the lines it
  prints and the error of waiting for it.
\<close>

definition execute ::
    "(string list \<Rightarrow> error + string list list \<times> error option) \<Rightarrow> executor" where
  "execute command pool handler args =
     (case command (args @ [pool]) of
        Inl err \<Rightarrow> (handler, Some err)
      | Inr (out, waitErr) \<Rightarrow>
          (case processLines handler pool out of
             (h, Some err) \<Rightarrow> (h, Some err)
           | (h, None) \<Rightarrow> (h, waitErr)))"

section \<open>Package collector: the pool collector (collector/pool.go)\<close>

text \<open>
  The transform a registered property refers to: the registry holds a reference to one
  of five functions (\<^verbatim>\<open>transformNumeric\<close>, \<^verbatim>\<open>transformMultiplier\<close>,
  \<^verbatim>\<open>transformPercentage\<close>, \<^verbatim>\<open>transformBool\<close>, \<^verbatim>\<open>transformHealthCode\<close>),
  all declared outside pool.go.
\<close>

datatype transformRef =
    RefNumeric
  | RefMultiplier
  | RefPercentage
  | RefBool
  | RefHealthCode

text \<open>
  What \<^verbatim>\<open>newProperty(subsystemPool, name, help, transform, poolLabels...)\<close> is given
  in the registry table, without the help text.
\<close>

record property =
  metricName :: string
  transform :: transformRef
  labels :: "string list"

definition poolLabels :: "string list" where
  "poolLabels = [''pool'']"

definition newProperty :: "string \<Rightarrow> transformRef \<Rightarrow> string list \<Rightarrow> property" where
  "newProperty n t ls = \<lparr>metricName = n, transform = t, labels = ls\<rparr>"

text \<open>The table \<^verbatim>\<open>poolProperties.store\<close>, in the order of the source.\<close>

definition poolPropertiesStore :: "(string \<times> property) list" where
  "poolPropertiesStore =
     [(''allocated'', newProperty ''allocated_bytes'' RefNumeric poolLabels),
      (''dedupratio'', newProperty ''deduplication_ratio'' RefMultiplier poolLabels),
      (''capacity'', newProperty ''capacity_ratio'' RefPercentage poolLabels),
      (''expandsize'', newProperty ''expand_size_bytes'' RefNumeric poolLabels),
      (''fragmentation'', newProperty ''fragmentation_ratio'' RefPercentage poolLabels),
      (''free'', newProperty ''free_bytes'' RefNumeric poolLabels),
      (''freeing'', newProperty ''freeing_bytes'' RefNumeric poolLabels),
      (''health'', newProperty ''health'' RefHealthCode poolLabels),
      (''leaked'', newProperty ''leaked_bytes'' RefNumeric poolLabels),
      (''readonly'', newProperty ''readonly'' RefBool poolLabels),
      (''size'', newProperty ''size_bytes'' RefNumeric poolLabels),
      (''opread'', newProperty ''operations_read'' RefNumeric poolLabels),
      (''opwrite'', newProperty ''operations_write'' RefNumeric poolLabels),
      (''bwread'', newProperty ''bandwidth_read'' RefNumeric poolLabels),
      (''bwwrite'', newProperty ''bandwidth_write'' RefNumeric poolLabels)]"

definition defaultPoolIostats :: string where
  "defaultPoolIostats = ''opread,opwrite,bwread,bwwrite''"

text \<open>
  Modelled from the spec: the method \<^verbatim>\<open>propertyStore.find\<close> is declared outside
  pool.go. The spec gives \<open>find(key) -> descriptor or NotFoundError\<close>, an exact-key
  lookup. The call site reads a property value also when the lookup fails; what that
  value is, is not given, so it is the parameter \<open>unsupported\<close>.
\<close>

definition poolProperties_find :: "property \<Rightarrow> string \<Rightarrow> property \<times> error option" where
  "poolProperties_find unsupported k =
     (case map_of poolPropertiesStore k of
        Some prop \<Rightarrow> (prop, None)
      | None \<Rightarrow> (unsupported, Some ErrUnsupportedProperty))"

text \<open>
  Modelled from the spec: \<^verbatim>\<open>transformHealthCode\<close> and the codes
  \<^verbatim>\<open>poolOnline .. poolSuspended\<close> are declared outside pool.go. The spec gives the
  ordered token set (online, degraded, faulted, offline, unavailable, removed,
  suspended), the assignment online=0 .. suspended=6, and a transform error for every
  other token. The tokens are the \<open>PoolStatus\<close> constants of package zfs, paired with
  the codes in the order in which the help text of the \<^verbatim>\<open>health\<close> property lists
  them.
\<close>

definition healthCodes :: "(PoolStatus \<times> int) list" where
  "healthCodes =
     [(PoolOnline, 0), (PoolDegraded, 1), (PoolFaulted, 2), (PoolOffline, 3),
      (PoolUnavail, 4), (PoolRemoved, 5), (PoolSuspended, 6)]"

definition transformHealthCode :: "string \<Rightarrow> error + int" where
  "transformHealthCode status =
     (case map_of healthCodes status of
        Some code \<Rightarrow> Inr code
      | None \<Rightarrow> Inl (TransformError status))"

text \<open>
  \<^verbatim>\<open>type poolCollector struct { kind zfs.PoolKind; log log.Logger; client zfs.Client;
  props []string }\<close>. The logger is an external collaborator (type \<open>'l\<close>). The
  client is the interface \<^verbatim>\<open>zfs.Client\<close>; the collector only ever evaluates
  \<^verbatim>\<open>c.client.Pool(pool, c.kind).Properties(c.props...)\<close>, so a client is the
  function from pool name, kind and property names to what that expression returns.
  The field \<^verbatim>\<open>kind\<close> is written \<open>collectorKind\<close>.
\<close>

type_synonym Client =
  "string \<Rightarrow> PoolKind \<Rightarrow> string list \<Rightarrow> poolPropertiesImpl \<times> error option"

record 'l poolCollector =
  collectorKind :: PoolKind
  log :: 'l
  client :: Client
  props :: "string list"

text \<open>
  The client whose pools are \<open>poolImpl\<close> values, for a given command executor.
\<close>

definition poolImplClient :: "executor \<Rightarrow> Client" where
  "poolImplClient execute_fn pool k ps = Properties execute_fn (newPoolImpl pool k) ps"

text \<open>
  \<^verbatim>\<open>func newPoolCollector(kind zfs.PoolKind, l log.Logger, c zfs.Client, props []string)
  (Collector, error)\<close>: the pair of the returned collector (\<open>None\<close> for \<^verbatim>\<open>nil\<close>)
  and the returned error.
\<close>

definition newPoolCollector ::
    "PoolKind \<Rightarrow> 'l \<Rightarrow> Client \<Rightarrow> string list \<Rightarrow> 'l poolCollector option \<times> error option" where
  "newPoolCollector k l c ps =
     (if k = PoolProps \<or> k = PoolIostat then
        (Some \<lparr>collectorKind = k, log = l, client = c, props = ps\<rparr>, None)
      else (None, Some (Errorf (''unknown pool type: '' @ k))))"

definition newPoolPropertiesCollector ::
    "'l \<Rightarrow> Client \<Rightarrow> string list \<Rightarrow> 'l poolCollector option \<times> error option" where
  "newPoolPropertiesCollector l c ps = newPoolCollector PoolProps l c ps"

definition newPoolIostatCollector ::
    "'l \<Rightarrow> Client \<Rightarrow> string list \<Rightarrow> 'l poolCollector option \<times> error option" where
  "newPoolIostatCollector l c ps = newPoolCollector PoolIostat l c ps"

subsection \<open>updatePoolMetrics\<close>

text \<open>
  What \<^verbatim>\<open>describe\<close> and \<^verbatim>\<open>updatePoolMetrics\<close> do to the objects they are
  handed: a warning given to the logger (the property key and the lookup error; the
  other fields of the log call are constants), or a value sent on the output channel
  \<^verbatim>\<open>ch\<close>. A call is modelled by the trace of these events, in program order.
\<close>

datatype 'm event =
    Warn string error
  | Send 'm

text \<open>
  \<^verbatim>\<open>func (c *poolCollector) describe(ch chan<- *prometheus.Desc)\<close> over the property
  names of the collector: a failed lookup is logged and the name is skipped
  (\<^verbatim>\<open>continue\<close>); otherwise the descriptor of the property is sent (\<open>desc_fn\<close>
  reads the field \<^verbatim>\<open>desc\<close>).
\<close>

fun describe :: "(string \<Rightarrow> 'p \<times> error option) \<Rightarrow> ('p \<Rightarrow> 'd) \<Rightarrow> string list \<Rightarrow> 'd event list" where
  "describe find_fn desc_fn [] = []"
| "describe find_fn desc_fn (k # ks) =
     (case find_fn k of
        (prop, Some err) \<Rightarrow> Warn k err # describe find_fn desc_fn ks
      | (prop, None) \<Rightarrow> Send (desc_fn prop) # describe find_fn desc_fn ks)"

text \<open>
  The loop \<^verbatim>\<open>for k, v := range props.Properties()\<close> of \<^verbatim>\<open>updatePoolMetrics\<close>,
  over the key/value pairs in the order in which the range statement yields them.
  \<^verbatim>\<open>poolProperties.find\<close> and \<^verbatim>\<open>property.push\<close> are declared outside pool.go
  and are the parameters \<open>find_fn\<close> and \<open>push_fn\<close>: \<open>find_fn k\<close> is the property and the error of the lookup;
  \<open>push_fn prop v labelValues\<close> is the list of metrics the call sends on \<^verbatim>\<open>ch\<close> and
  the error it returns. The result is the trace of warnings and sends, in program
  order, and the returned error.
\<close>

fun updatePoolMetrics_loop ::
    "(string \<Rightarrow> 'p \<times> error option) \<Rightarrow> ('p \<Rightarrow> string \<Rightarrow> string list \<Rightarrow> 'm list \<times> error option) \<Rightarrow>
     string list \<Rightarrow> (string \<times> string) list \<Rightarrow> 'm event list \<times> error option" where
  "updatePoolMetrics_loop find_fn push_fn labelValues [] = ([], None)"
| "updatePoolMetrics_loop find_fn push_fn labelValues ((k, v) # rest) =
     (case find_fn k of (prop, ferr) \<Rightarrow>
        (let warned = (case ferr of Some err \<Rightarrow> [Warn k err] | None \<Rightarrow> [])
         in case push_fn prop v labelValues of
              (ms, Some err) \<Rightarrow> (warned @ map Send ms, Some err)
            | (ms, None) \<Rightarrow>
                (case updatePoolMetrics_loop find_fn push_fn labelValues rest of
                   (acts, r) \<Rightarrow> (warned @ map Send ms @ acts, r))))"

text \<open>
  \<^verbatim>\<open>func (c *poolCollector) updatePoolMetrics(ch chan<- metric, pool string) error\<close>.
  Go leaves the iteration order of a map to the runtime: \<open>order\<close> is the sequence in
  which the range statement yields the entries of a map.
\<close>

definition updatePoolMetrics ::
    "'l poolCollector \<Rightarrow> (string \<Rightarrow> 'p \<times> error option) \<Rightarrow>
     ('p \<Rightarrow> string \<Rightarrow> string list \<Rightarrow> 'm list \<times> error option) \<Rightarrow>
     ((string \<rightharpoonup> string) \<Rightarrow> (string \<times> string) list) \<Rightarrow> string \<Rightarrow>
     'm event list \<times> error option" where
  "updatePoolMetrics c find_fn push_fn order pool =
     (case client c pool (collectorKind c) (props c) of
        (h, Some err) \<Rightarrow> ([], Some err)
      | (h, None) \<Rightarrow> updatePoolMetrics_loop find_fn push_fn [pool] (order (properties h)))"

subsection \<open>update: one goroutine per pool\<close>

text \<open>
  \<^verbatim>\<open>func (c *poolCollector) update(ch chan<- metric, pools []string,
  excludes regexpCollection) error\<close> starts one goroutine per pool and waits for all
  of them. The model is an interleaving semantics: a state holds the position of the
  calling goroutine, the operations each started goroutine has still to perform on the
  shared objects, and the shared objects themselves; a scheduler picks which goroutine
  takes the next step. The parameter \<^verbatim>\<open>excludes\<close> is not read by the body.
\<close>

text \<open>
  The calling goroutine is in the \<^verbatim>\<open>for\<close> loop (with the pools it has still to
  start a goroutine for), at \<^verbatim>\<open>wg.Wait()\<close>, or has returned.
\<close>

datatype pc = Spawning "string list" | Waiting | Returned "error option"

text \<open>
  The operations of a started goroutine on the shared objects: an event of its call of
  \<^verbatim>\<open>updatePoolMetrics\<close>, the send of an error on the error channel, and
  \<^verbatim>\<open>wg.Done()\<close>.
\<close>

datatype 'm action =
    Perform "'m event"
  | Deposit error
  | Done

text \<open>
  \<open>tasks\<close>: per started goroutine, the operations it has still to perform;
  \<open>wg\<close>: the counter of the \<^verbatim>\<open>sync.WaitGroup\<close>;
  \<open>errChan\<close>: the buffer of the error channel, oldest first, and \<open>errCap\<close> its capacity;
  \<open>ch\<close>: the metrics sent on the output channel so far, oldest first (its receiver
  is an external collaborator that is taken to accept every send);
  \<open>logged\<close>: the warnings handed to the logger so far.
\<close>

record 'm state =
  caller :: pc
  tasks :: "'m action list list"
  wg :: int
  errChan :: "error list"
  errCap :: nat
  ch :: "'m list"
  logged :: "(string \<times> error) list"

text \<open>
  The body of the goroutine:
  \<^verbatim>\<open>if err := c.updatePoolMetrics(ch, pool); err != nil { errChan <- err }; wg.Done()\<close>,
  for a unit of work \<open>work\<close> that yields the trace and the error of
  \<^verbatim>\<open>updatePoolMetrics\<close> for a pool.
\<close>

definition goroutine :: "(string \<Rightarrow> 'm event list \<times> error option) \<Rightarrow> string \<Rightarrow> 'm action list" where
  "goroutine work pool =
     (case work pool of
        (evs, Some err) \<Rightarrow> map Perform evs @ [Deposit err, Done]
      | (evs, None) \<Rightarrow> map Perform evs @ [Done])"

text \<open>
  \<^verbatim>\<open>var wg sync.WaitGroup; errChan := make(chan error, len(pools))\<close>, before the loop.
\<close>

definition init :: "string list \<Rightarrow> 'm state" where
  "init pools =
     \<lparr>caller = Spawning pools, tasks = [], wg = 0, errChan = [], errCap = length pools,
      ch = [], logged = []\<rparr>"

text \<open>
  A step of the calling goroutine. In the loop: \<^verbatim>\<open>wg.Add(1)\<close> and the \<^verbatim>\<open>go\<close>
  statement for the next pool, or the loop's exit. At \<^verbatim>\<open>wg.Wait()\<close>: blocked
  (\<open>None\<close>) until the counter is zero, then the \<^verbatim>\<open>select\<close>, which receives the
  oldest error of the buffer when there is one and returns \<^verbatim>\<open>nil\<close> otherwise.
\<close>

definition stepCaller :: "(string \<Rightarrow> 'm event list \<times> error option) \<Rightarrow> 'm state \<Rightarrow> 'm state option" where
  "stepCaller work s =
     (case caller s of
        Spawning (pool # rest) \<Rightarrow>
          Some (s\<lparr>caller := Spawning rest, wg := wg s + 1,
                   tasks := tasks s @ [goroutine work pool]\<rparr>)
      | Spawning [] \<Rightarrow> Some (s\<lparr>caller := Waiting\<rparr>)
      | Waiting \<Rightarrow>
          (if wg s = 0 then
             (case errChan s of
                err # buffered \<Rightarrow> Some (s\<lparr>caller := Returned (Some err), errChan := buffered\<rparr>)
              | [] \<Rightarrow> Some (s\<lparr>caller := Returned None\<rparr>))
           else None)
      | Returned r \<Rightarrow> None)"

text \<open>
  A step of the started goroutine number \<open>i\<close>: its next operation. A send on the
  error channel blocks (\<open>None\<close>) while the buffer is full.
\<close>

definition stepTask :: "nat \<Rightarrow> 'm state \<Rightarrow> 'm state option" where
  "stepTask i s =
     (if i < length (tasks s) then
        (case tasks s ! i of
           [] \<Rightarrow> None
         | Perform (Warn k err) # rest \<Rightarrow>
             Some (s\<lparr>tasks := (tasks s)[i := rest], logged := logged s @ [(k, err)]\<rparr>)
         | Perform (Send m) # rest \<Rightarrow>
             Some (s\<lparr>tasks := (tasks s)[i := rest], ch := ch s @ [m]\<rparr>)
         | Deposit err # rest \<Rightarrow>
             (if length (errChan s) < errCap s then
                Some (s\<lparr>tasks := (tasks s)[i := rest], errChan := errChan s @ [err]\<rparr>)
              else None)
         | Done # rest \<Rightarrow>
             Some (s\<lparr>tasks := (tasks s)[i := rest], wg := wg s - 1\<rparr>))
      else None)"

datatype choice = Caller | Task nat

fun step :: "(string \<Rightarrow> 'm event list \<times> error option) \<Rightarrow> choice \<Rightarrow> 'm state \<Rightarrow> 'm state option" where
  "step work Caller s = stepCaller work s"
| "step work (Task i) s = stepTask i s"

text \<open>
  A schedule is the list of choices the scheduler makes; \<open>run\<close> is \<open>None\<close> when the
  schedule picks a goroutine that cannot take a step.
\<close>

fun run :: "(string \<Rightarrow> 'm event list \<times> error option) \<Rightarrow> choice list \<Rightarrow> 'm state \<Rightarrow> 'm state option" where
  "run work [] s = Some s"
| "run work (c # cs) s =
     (case step work c s of
        None \<Rightarrow> None
      | Some s' \<Rightarrow> run work cs s')"

text \<open>
  \<open>update\<close> under a schedule: the state the schedule leads to from the initial one,
  every goroutine running \<open>updatePoolMetrics\<close> for its pool.
\<close>

definition update ::
    "'l poolCollector \<Rightarrow> (string \<Rightarrow> 'p \<times> error option) \<Rightarrow>
     ('p \<Rightarrow> string \<Rightarrow> string list \<Rightarrow> 'm list \<times> error option) \<Rightarrow>
     ((string \<rightharpoonup> string) \<Rightarrow> (string \<times> string) list) \<Rightarrow> string list \<Rightarrow> choice list \<Rightarrow>
     'm state option" where
  "update c find_fn push_fn order pools sched =
     run (updatePoolMetrics c find_fn push_fn order) sched (init pools)"

text \<open>The metrics a trace sends, in order.\<close>

fun sendsOf :: "'m event list \<Rightarrow> 'm list" where
  "sendsOf [] = []"
| "sendsOf (Send m # evs) = m # sendsOf evs"
| "sendsOf (Warn k err # evs) = sendsOf evs"

text \<open>The errors of the pools whose unit of work fails, in the order of the pools.\<close>

fun failures :: "(string \<Rightarrow> 'm event list \<times> error option) \<Rightarrow> string list \<Rightarrow> error list" where
  "failures work [] = []"
| "failures work (pool # rest) =
     (case snd (work pool) of
        Some err \<Rightarrow> err # failures work rest
      | None \<Rightarrow> failures work rest)"

text \<open>The metrics the units of work of the pools send, in the order of the pools.\<close>

definition emitted :: "(string \<Rightarrow> 'm event list \<times> error option) \<Rightarrow> string list \<Rightarrow> 'm list" where
  "emitted work pools = concat (map (\<lambda>pool. sendsOf (fst (work pool))) pools)"

subsection \<open>The invariant of update\<close>

text \<open>
  The operations still to be performed in a state: those of the started goroutines and
  those of the goroutines the loop has still to start.
\<close>

definition unspawned :: "'m state \<Rightarrow> string list" where
  "unspawned s = (case caller s of Spawning ps \<Rightarrow> ps | Waiting \<Rightarrow> [] | Returned r \<Rightarrow> [])"

definition pending :: "(string \<Rightarrow> 'm event list \<times> error option) \<Rightarrow> 'm state \<Rightarrow> 'm action multiset" where
  "pending work s =
     mset (concat (tasks s)) + mset (concat (map (goroutine work) (unspawned s)))"

text \<open>The metrics and the errors that a multiset of operations sends.\<close>

fun isSend :: "'m action \<Rightarrow> bool" where
  "isSend (Perform (Send m)) = True"
| "isSend a = False"

fun isDeposit :: "'m action \<Rightarrow> bool" where
  "isDeposit (Deposit err) = True"
| "isDeposit a = False"

definition metricsIn :: "'m action multiset \<Rightarrow> 'm multiset" where
  "metricsIn A =
     image_mset (\<lambda>a. case a of Perform (Send m) \<Rightarrow> m) (filter_mset isSend A)"

definition errorsIn :: "'m action multiset \<Rightarrow> error multiset" where
  "errorsIn A =
     image_mset (\<lambda>a. case a of Deposit err \<Rightarrow> err) (filter_mset isDeposit A)"

text \<open>
  The invariant: the capacity of the error channel is the number of pools; every
  metric of the pass is on the output channel or still to be sent; until the caller
  returns, every error of the pass is in the error channel or still to be deposited;
  the counter of the wait group is the number of \<^verbatim>\<open>wg.Done()\<close> calls still to
  come; a started goroutine that has not finished ends with \<^verbatim>\<open>wg.Done()\<close>; and
  once the caller has returned, every goroutine has finished and the returned error
  is one of the errors of the pass, or \<^verbatim>\<open>nil\<close> when there is none.
\<close>

definition inv :: "(string \<Rightarrow> 'm event list \<times> error option) \<Rightarrow> string list \<Rightarrow> 'm state \<Rightarrow> bool" where
  "inv work pools s =
     (let total = mset (concat (map (goroutine work) pools)) in
      errCap s = length pools
      \<and> mset (ch s) + metricsIn (pending work s) = metricsIn total
      \<and> (case caller s of
           Returned r \<Rightarrow>
             pending work s = {#}
             \<and> (case r of None \<Rightarrow> errorsIn total = {#} | Some err \<Rightarrow> err \<in># errorsIn total)
         | Waiting \<Rightarrow> mset (errChan s) + errorsIn (pending work s) = errorsIn total
         | Spawning ps \<Rightarrow> mset (errChan s) + errorsIn (pending work s) = errorsIn total)
      \<and> wg s = int (count (mset (concat (tasks s))) Done)
      \<and> (\<forall>t \<in> set (tasks s). t = [] \<or> last t = Done))"

text \<open>The number of steps a state can still take is bounded by this measure.\<close>

definition stepsLeft :: "(string \<Rightarrow> 'm event list \<times> error option) \<Rightarrow> 'm state \<Rightarrow> nat" where
  "stepsLeft work s =
     size (pending work s)
     + (case caller s of Spawning ps \<Rightarrow> length ps + 2 | Waiting \<Rightarrow> 1 | Returned r \<Rightarrow> 0)"

subsection \<open>A pass over three pools\<close>

text \<open>
  The pools A, B and C of a properties collector for the property \<open>size\<close>: the
  command of pool B exits non-zero, the commands of A and C print one line each. The
  metric that \<open>push\<close> sends is the triple of metric name, raw value and label values.
\<close>

definition exampleCommand :: "string list \<Rightarrow> error + string list list \<times> error option" where
  "exampleCommand args =
     (if last args = ''B'' then Inr ([], Some (OtherError ''exit status 1''))
      else Inr ([[last args, ''size'', ''1024'']], None))"

definition exampleCollector :: "unit poolCollector" where
  "exampleCollector =
     \<lparr>collectorKind = PoolProps, log = (), client = poolImplClient (execute exampleCommand),
      props = [''size'']\<rparr>"

definition exampleFind :: "string \<Rightarrow> property \<times> error option" where
  "exampleFind = poolProperties_find (newProperty ''unsupported'' RefNumeric poolLabels)"

definition examplePush ::
    "property \<Rightarrow> string \<Rightarrow> string list \<Rightarrow> (string \<times> string \<times> string list) list \<times> error option" where
  "examplePush prop v labelValues = ([(metricName prop, v, labelValues)], None)"

definition exampleOrder :: "(string \<rightharpoonup> string) \<Rightarrow> (string \<times> string) list" where
  "exampleOrder m = (case m ''size'' of Some v \<Rightarrow> [(''size'', v)] | None \<Rightarrow> [])"

text \<open>
  A schedule: the caller starts the three goroutines; B deposits its error while A and C
  are still sending; the caller returns once all three have called \<^verbatim>\<open>wg.Done()\<close>.
\<close>

definition exampleSchedule :: "choice list" where
  "exampleSchedule =
     [Caller, Caller, Task 0, Caller, Caller, Task 1, Task 2, Task 1, Task 0, Task 2, Caller]"

section \<open>The line handler\<close>

lemma PoolProps_neq_PoolIostat: "PoolProps \<noteq> PoolIostat"
  by (simp add: PoolProps_def PoolIostat_def)

lemma processLine_props_valid:
  assumes "kind p = PoolProps" and "length l = 3" and "l ! 0 = pool"
  shows "processLine p pool l = (p\<lparr>properties := (properties p)(l ! 1 \<mapsto> l ! 2)\<rparr>, None)"
  using assms by (simp add: processLine_def)

lemma processLines_props_valid:
  assumes "kind p = PoolProps" and "\<forall>l \<in> set ls. length l = 3 \<and> l ! 0 = pool"
  shows "\<exists>p'. processLines p pool ls = (p', None) \<and> kind p' = PoolProps"
  using assms
proof (induction ls arbitrary: p)
  case Nil
  then show ?case by simp
next
  case (Cons l ls)
  let ?q = "p\<lparr>properties := (properties p)(l ! 1 \<mapsto> l ! 2)\<rparr>"
  from Cons.prems have "processLine p pool l = (?q, None)"
    by (simp add: processLine_props_valid)
  moreover have "kind ?q = PoolProps" using Cons.prems by simp
  moreover from Cons.prems have "\<forall>l \<in> set ls. length l = 3 \<and> l ! 0 = pool" by simp
  ultimately show ?case using Cons.IH [of ?q] by simp
qed

lemma processLines_append:
  "processLines p pool (xs @ ys) =
     (case processLines p pool xs of
        (p', Some err) \<Rightarrow> (p', Some err)
      | (p', None) \<Rightarrow> processLines p' pool ys)"
  by (induction xs arbitrary: p) (auto split: prod.splits option.splits)

text \<open>
  C1. The claim has an I/O-statistics line of 7 fields put fields 3, 4, 5 and 6 under
  \<open>opread\<close>, \<open>opwrite\<close>, \<open>bwread\<close> and \<open>bwwrite\<close>. On the line of the claim the
  handler returns no error, but it writes field 5 and then field 6 under \<open>bwwrite\<close>:
  the map has no entry for \<open>bwread\<close> (a key the registry table does hold), and the
  read bandwidth 4096 is lost.
\<close>

theorem processLine_iostat_drops_bwread:
  "processLine (newPoolPropertiesImpl PoolIostat) ''tank''
       [''tank'', ''-'', ''-'', ''120'', ''80'', ''4096'', ''8192''] =
     (\<lparr>kind = PoolIostat,
       properties = [''opread'' \<mapsto> ''120'', ''opwrite'' \<mapsto> ''80'', ''bwwrite'' \<mapsto> ''8192'']\<rparr>, None)
   \<and> [''opread'' \<mapsto> ''120'', ''opwrite'' \<mapsto> ''80'', ''bwwrite'' \<mapsto> ''8192''] ''bwread'' = None
   \<and> map_of poolPropertiesStore ''bwread'' \<noteq> None"
  by (simp add: processLine_def newPoolPropertiesImpl_def PoolProps_def PoolIostat_def
        poolPropertiesStore_def)

theorem processLine_iostat_drops_bwread_witness:
  "properties (fst (processLine (newPoolPropertiesImpl PoolIostat) ''tank''
       [''tank'', ''-'', ''-'', ''120'', ''80'', ''4096'', ''8192''])) ''bwread'' = None
   \<and> properties (fst (processLine (newPoolPropertiesImpl PoolIostat) ''tank''
       [''tank'', ''-'', ''-'', ''120'', ''80'', ''4096'', ''8192''])) ''bwwrite'' = Some ''8192''"
  using processLine_iostat_drops_bwread by simp

text \<open>
  C4. On a properties-kind line \<open>(name, k, v)\<close> whose name is the queried pool,
  \<open>processLine\<close> returns no error; afterwards the map holds \<open>k \<mapsto> v\<close> and every other
  key is as it was.
\<close>

theorem processLine_properties_line:
  assumes "kind p = PoolProps" and "processLine p pool [pool, k, v] = (p', err)"
  shows "err = None \<and> properties p' k = Some v
         \<and> (\<forall>k'. k' \<noteq> k \<longrightarrow> properties p' k' = properties p k')
         \<and> kind p' = kind p"
  using assms by (auto simp: processLine_def)

theorem processLine_properties_line_witness:
  "kind (newPoolPropertiesImpl PoolProps) = PoolProps
   \<and> processLine (newPoolPropertiesImpl PoolProps) ''tank'' [''tank'', ''size'', ''1024''] =
       (\<lparr>kind = PoolProps, properties = [''size'' \<mapsto> ''1024'']\<rparr>, None)
   \<and> properties \<lparr>kind = PoolProps, properties = [''size'' \<mapsto> ''1024'']\<rparr> ''size'' = Some ''1024''
   \<and> properties \<lparr>kind = PoolProps, properties = [''size'' \<mapsto> ''1024'']\<rparr> ''free'' =
       properties (newPoolPropertiesImpl PoolProps) ''free''"
proof -
  have k: "kind (newPoolPropertiesImpl PoolProps) = PoolProps"
    by (simp add: newPoolPropertiesImpl_def)
  have r: "processLine (newPoolPropertiesImpl PoolProps) ''tank'' [''tank'', ''size'', ''1024''] =
       (\<lparr>kind = PoolProps, properties = [''size'' \<mapsto> ''1024'']\<rparr>, None)"
    by (simp add: processLine_def newPoolPropertiesImpl_def)
  from processLine_properties_line [OF k r] k r show ?thesis
    by simp
qed

text \<open>
  C5. For the two supported kinds, a line whose number of fields is not the one the
  kind requires, or whose first field is not the queried pool, makes \<open>processLine\<close>
  return \<open>ErrInvalidOutput\<close> and leaves the handler as it was. When that error is what
  the client's \<open>Properties\<close> call returns, \<open>updatePoolMetrics\<close> returns it with an
  empty trace: the returned properties are not read, no metric is sent and nothing is
  logged.
\<close>

theorem invalid_line_rejected:
  assumes "kind p = PoolProps \<or> kind p = PoolIostat"
      and "int (length line) \<noteq> getFieldsPerRecord p \<or> line ! 0 \<noteq> pool"
  shows "processLine p pool line = (p, Some ErrInvalidOutput)
         \<and> (client c pool (collectorKind c) (props c) = (h, Some ErrInvalidOutput) \<longrightarrow>
              updatePoolMetrics c find_fn push_fn order pool = ([], Some ErrInvalidOutput))"
  using assms
  by (auto simp: processLine_def getFieldsPerRecord_def updatePoolMetrics_def
        PoolProps_def PoolIostat_def)

theorem invalid_line_rejected_witness:
  "processLine (newPoolPropertiesImpl PoolProps) ''tank'' [''rpool'', ''free'', ''2''] =
     (newPoolPropertiesImpl PoolProps, Some ErrInvalidOutput)
   \<and> updatePoolMetrics
        \<lparr>collectorKind = PoolProps, log = (),
         client = poolImplClient
           (execute (\<lambda>args. Inr ([[''tank'', ''size'', ''1''], [''rpool'', ''free'', ''2'']], None))),
         props = [''size'', ''free'']\<rparr>
        (poolProperties_find (newProperty ''guid'' RefNumeric poolLabels))
        (\<lambda>prop v lv. ([(metricName prop, v, lv)], None)) (\<lambda>m. []) ''tank'' =
     ([], Some ErrInvalidOutput)"
proof -
  let ?p = "newPoolPropertiesImpl PoolProps"
  let ?c = "\<lparr>collectorKind = PoolProps, log = (),
         client = poolImplClient
           (execute (\<lambda>args. Inr ([[''tank'', ''size'', ''1''], [''rpool'', ''free'', ''2'']], None))),
         props = [''size'', ''free'']\<rparr>"
  have a: "kind ?p = PoolProps \<or> kind ?p = PoolIostat"
    by (simp add: newPoolPropertiesImpl_def)
  have b: "int (length [''rpool'', ''free'', ''2'']) \<noteq> getFieldsPerRecord ?p
           \<or> [''rpool'', ''free'', ''2''] ! 0 \<noteq> ''tank''"
    by simp
  have c: "client ?c ''tank'' (collectorKind ?c) (props ?c) =
      (\<lparr>kind = PoolProps, properties = [''size'' \<mapsto> ''1'']\<rparr>, Some ErrInvalidOutput)"
    by (simp add: poolImplClient_def Properties_def newPoolImpl_def newPoolPropertiesImpl_def
          execute_def processLine_def PoolProps_def PoolIostat_def)
  from invalid_line_rejected [OF a b, of ?c "\<lparr>kind = PoolProps, properties = [''size'' \<mapsto> ''1'']\<rparr>"
      "poolProperties_find (newProperty ''guid'' RefNumeric poolLabels)"
      "\<lambda>prop v lv. ([(metricName prop, v, lv)], None)" "\<lambda>m. []"] c
  show ?thesis by simp
qed

text \<open>
  C8. When two properties-kind lines with the same key \<open>k\<close> are processed in order
  (with any valid lines of the same pool between them), the run returns no error and
  the map afterwards gives \<open>k\<close> the value of the later line. The map is a function of
  the key, so a key has one value.
\<close>

theorem processLines_last_write_wins:
  assumes "kind p = PoolProps" and "\<forall>l \<in> set mid. length l = 3 \<and> l ! 0 = pool"
  shows "\<exists>p'. processLines p pool ([pool, k, v1] # mid @ [[pool, k, v2]]) = (p', None)
              \<and> properties p' k = Some v2"
proof -
  have "\<forall>l \<in> set ([pool, k, v1] # mid). length l = 3 \<and> l ! 0 = pool"
    using assms(2) by simp
  from processLines_props_valid [OF assms(1) this]
  obtain q where q: "processLines p pool ([pool, k, v1] # mid) = (q, None)" "kind q = PoolProps"
    by blast
  have "processLines p pool (([pool, k, v1] # mid) @ [[pool, k, v2]]) =
          processLines q pool [[pool, k, v2]]"
    by (simp only: processLines_append q) simp
  moreover have "processLines q pool [[pool, k, v2]] = (q\<lparr>properties := (properties q)(k \<mapsto> v2)\<rparr>, None)"
    using q(2) by (simp add: processLine_def)
  ultimately show ?thesis by simp
qed

theorem processLines_last_write_wins_witness:
  "\<exists>p'. processLines (newPoolPropertiesImpl PoolProps) ''tank''
           [[''tank'', ''size'', ''1''], [''tank'', ''free'', ''7''], [''tank'', ''size'', ''2'']] = (p', None)
         \<and> properties p' ''size'' = Some ''2''"
proof -
  have a: "kind (newPoolPropertiesImpl PoolProps) = PoolProps"
    by (simp add: newPoolPropertiesImpl_def)
  have b: "\<forall>l \<in> set [[''tank'', ''free'', ''7'']]. length l = 3 \<and> l ! 0 = ''tank''"
    by simp
  from processLines_last_write_wins [OF a b, of "''size''" "''1''" "''2''"]
  show ?thesis by simp
qed

text \<open>
  C10. \<open>getFieldsPerRecord\<close> is total over the kinds: 7 for \<open>PoolIostat\<close> and 3 for every
  other kind, the unrecognised ones included.
\<close>

theorem getFieldsPerRecord_total:
  "getFieldsPerRecord p = (if kind p = PoolIostat then 7 else 3)"
  by (simp add: getFieldsPerRecord_def PoolProps_def PoolIostat_def)

section \<open>The collector\<close>

text \<open>
  C6. For every kind other than \<open>PoolProps\<close> and \<open>PoolIostat\<close>, \<open>newPoolCollector\<close>
  returns no collector and the error "unknown pool type: " followed by the kind.
\<close>

theorem newPoolCollector_unknown_kind:
  assumes "k \<noteq> PoolProps" and "k \<noteq> PoolIostat"
  shows "newPoolCollector k l c ps = (None, Some (Errorf (''unknown pool type: '' @ k)))"
  using assms by (simp add: newPoolCollector_def)

theorem newPoolCollector_unknown_kind_witness:
  "''datasets'' \<noteq> PoolProps \<and> ''datasets'' \<noteq> PoolIostat
   \<and> newPoolCollector ''datasets'' () (poolImplClient (\<lambda>n h a. (h, None))) [''size''] =
       (None, Some (Errorf ''unknown pool type: datasets''))"
proof -
  have a: "''datasets'' \<noteq> PoolProps" and b: "''datasets'' \<noteq> PoolIostat"
    by (simp_all add: PoolProps_def PoolIostat_def)
  from newPoolCollector_unknown_kind [OF a b, of "()" "poolImplClient (\<lambda>n h a. (h, None))" "[''size'']"] a b
  show ?thesis by simp
qed

text \<open>
  C7. The health-code transform gives the seven status tokens, in the order ONLINE,
  DEGRADED, FAULTED, OFFLINE, UNAVAIL, REMOVED, SUSPENDED, the codes 0 to 6; every
  other token is a transform error.
\<close>

theorem transformHealthCode_codes:
  "map transformHealthCode
       [PoolOnline, PoolDegraded, PoolFaulted, PoolOffline, PoolUnavail, PoolRemoved, PoolSuspended] =
     [Inr 0, Inr 1, Inr 2, Inr 3, Inr 4, Inr 5, Inr 6]
   \<and> transformHealthCode ''ONLINE'' = Inr 0
   \<and> transformHealthCode ''SUSPENDED'' = Inr 6
   \<and> (\<forall>s. s \<notin> {PoolOnline, PoolDegraded, PoolFaulted, PoolOffline, PoolUnavail, PoolRemoved,
                PoolSuspended} \<longrightarrow> transformHealthCode s = Inl (TransformError s))"
  by (simp add: transformHealthCode_def healthCodes_def PoolOnline_def PoolDegraded_def
        PoolFaulted_def PoolOffline_def PoolUnavail_def PoolRemoved_def PoolSuspended_def)

theorem transformHealthCode_codes_witness:
  "''online'' \<notin> {PoolOnline, PoolDegraded, PoolFaulted, PoolOffline, PoolUnavail, PoolRemoved,
                PoolSuspended}
   \<and> transformHealthCode ''online'' = Inl (TransformError ''online'')"
proof -
  have a: "''online'' \<notin> {PoolOnline, PoolDegraded, PoolFaulted, PoolOffline, PoolUnavail,
      PoolRemoved, PoolSuspended}"
    by (simp add: PoolOnline_def PoolDegraded_def
        PoolFaulted_def PoolOffline_def PoolUnavail_def PoolRemoved_def PoolSuspended_def)
  from transformHealthCode_codes a show ?thesis by blast
qed

text \<open>
  C2. The claim has a key that the registry does not hold logged and skipped. The loop
  of \<open>updatePoolMetrics\<close> logs the warning and then calls \<open>push\<close> on the property the
  failed lookup returned: with a \<open>push\<close> that succeeds a metric is sent for the key
  \<open>guid\<close>; with a \<open>push\<close> that fails the error is returned and the key \<open>size\<close> after
  it is never processed. \<open>describe\<close>, on the same lookup failure, does skip the key.
\<close>

theorem updatePoolMetrics_loop_unresolved_key:
  "updatePoolMetrics_loop (poolProperties_find u) (\<lambda>prop v lv. ([(metricName prop, v, lv)], None))
       [''tank''] [(''guid'', ''12345'')] =
     ([Warn ''guid'' ErrUnsupportedProperty, Send (metricName u, ''12345'', [''tank''])], None)
   \<and> updatePoolMetrics_loop (poolProperties_find u) (\<lambda>prop v lv. ([], Some (TransformError v)))
       [''tank''] [(''guid'', ''12345''), (''size'', ''1024'')] =
     ([Warn ''guid'' ErrUnsupportedProperty], Some (TransformError ''12345''))
   \<and> describe (poolProperties_find u) metricName [''guid'', ''size''] =
     [Warn ''guid'' ErrUnsupportedProperty, Send ''size_bytes'']"
  by (simp add: poolProperties_find_def poolPropertiesStore_def newProperty_def)

section \<open>The concurrent pass\<close>

lemma concat_update_head:
  assumes "i < length ts" and "ts ! i = a # rest"
  shows "mset (concat ts) = add_mset a (mset (concat (ts[i := rest])))"
proof -
  have "ts = take i ts @ (a # rest) # drop (Suc i) ts"
    using assms by (metis id_take_nth_drop)
  moreover have "ts[i := rest] = take i ts @ rest # drop (Suc i) ts"
    using assms by (simp add: upd_conv_take_nth_drop)
  ultimately have "mset (concat ts) = mset (concat (take i ts @ (a # rest) # drop (Suc i) ts))"
    and "mset (concat (ts[i := rest])) = mset (concat (take i ts @ rest # drop (Suc i) ts))"
    by simp_all
  then show ?thesis by simp
qed

lemma metricsIn_empty [simp]: "metricsIn {#} = {#}"
  by (simp add: metricsIn_def)

lemma metricsIn_union [simp]: "metricsIn (A + B) = metricsIn A + metricsIn B"
  by (simp add: metricsIn_def)

lemma metricsIn_add [simp]:
  "metricsIn (add_mset (Perform (Send m)) A) = add_mset m (metricsIn A)"
  "metricsIn (add_mset (Perform (Warn k e)) A) = metricsIn A"
  "metricsIn (add_mset (Deposit e) A) = metricsIn A"
  "metricsIn (add_mset Done A) = metricsIn A"
  by (simp_all add: metricsIn_def)

lemma errorsIn_empty [simp]: "errorsIn {#} = {#}"
  by (simp add: errorsIn_def)

lemma errorsIn_union [simp]: "errorsIn (A + B) = errorsIn A + errorsIn B"
  by (simp add: errorsIn_def)

lemma errorsIn_add [simp]:
  "errorsIn (add_mset (Perform ev) A) = errorsIn A"
  "errorsIn (add_mset (Deposit e) A) = add_mset e (errorsIn A)"
  "errorsIn (add_mset Done A) = errorsIn A"
  by (simp_all add: errorsIn_def)

lemma metricsIn_events [simp]: "metricsIn (image_mset Perform (mset evs)) = mset (sendsOf evs)"
  by (induction evs rule: sendsOf.induct) simp_all

lemma errorsIn_events [simp]: "errorsIn (image_mset Perform (mset evs)) = {#}"
  by (induction evs) simp_all

lemma count_Done_events [simp]: "count (image_mset Perform (mset evs)) Done = 0"
  by (induction evs) simp_all

lemma goroutine_metrics: "metricsIn (mset (goroutine work pool)) = mset (sendsOf (fst (work pool)))"
  by (simp add: goroutine_def split: prod.splits option.splits)

lemma goroutine_errors:
  "errorsIn (mset (goroutine work pool)) = (case snd (work pool) of Some err \<Rightarrow> {#err#} | None \<Rightarrow> {#})"
  by (simp add: goroutine_def split: prod.splits option.splits)

lemma goroutine_Done: "count (mset (goroutine work pool)) Done = 1"
  by (simp add: goroutine_def split: prod.splits option.splits)

lemma goroutine_last: "goroutine work pool \<noteq> [] \<and> last (goroutine work pool) = Done"
  by (simp add: goroutine_def split: prod.splits option.splits)

lemma total_metrics:
  "metricsIn (mset (concat (map (goroutine work) pools))) = mset (emitted work pools)"
  by (induction pools) (simp_all add: emitted_def goroutine_metrics)

lemma total_errors:
  "errorsIn (mset (concat (map (goroutine work) pools))) = mset (failures work pools)"
  by (induction pools) (simp_all add: goroutine_errors split: option.splits)

lemma size_total_errors: "size (errorsIn (mset (concat (map (goroutine work) pools)))) \<le> length pools"
proof -
  have "length (failures work pools) \<le> length pools"
    by (induction pools) (simp_all split: option.splits)
  then show ?thesis by (simp add: total_errors)
qed

lemma inv_init: "inv work pools (init pools)"
  by (simp add: inv_def init_def pending_def unspawned_def)


lemma all_done_empty:
  assumes "\<forall>t \<in> set ts. t = [] \<or> last t = Done" and "count (mset (concat ts)) Done = 0"
  shows "concat ts = []"
proof (rule ccontr)
  assume "concat ts \<noteq> []"
  then obtain t where t: "t \<in> set ts" "t \<noteq> []" by auto
  with assms(1) have "last t = Done" by blast
  with t have "Done \<in> set t" by (metis last_in_set)
  with t(1) have "Done \<in> set (concat ts)" by auto
  then have "count (mset (concat ts)) Done > 0" by simp
  with assms(2) show False by simp
qed

lemma last_Done_update:
  assumes "\<forall>t \<in> set ts. t = [] \<or> last t = Done" and "i < length ts" and "ts ! i = a # rest"
  shows "\<forall>t \<in> set (ts[i := rest]). t = [] \<or> last t = Done"
proof
  fix t assume "t \<in> set (ts[i := rest])"
  then have "t = rest \<or> t \<in> set ts"
    using set_update_subset_insert [of ts i rest] by auto
  moreover have "rest = [] \<or> last rest = Done"
  proof -
    have "a # rest \<in> set ts" using assms(2,3) by (metis nth_mem)
    with assms(1) have "last (a # rest) = Done" by blast
    then show ?thesis by (cases rest) simp_all
  qed
  ultimately show "t = [] \<or> last t = Done" using assms(1) by blast
qed

lemma pending_task:
  assumes "i < length (tasks s)" and "tasks s ! i = a # rest"
      and "tasks s' = (tasks s)[i := rest]" and "caller s' = caller s"
  shows "pending work s = add_mset a (pending work s')"
  using assms concat_update_head [of i "tasks s" a rest]
  by (simp add: pending_def unspawned_def)

lemma inv_stepTask:
  assumes "inv work pools s" and "stepTask i s = Some s'"
  shows "inv work pools s'"
proof -
  from assms(2) have i: "i < length (tasks s)"
    by (simp add: stepTask_def split: if_splits)
  from assms(2) i obtain a rest where ar: "tasks s ! i = a # rest"
    by (cases "tasks s ! i") (simp_all add: stepTask_def)
  have notret: "\<forall>r. caller s \<noteq> Returned r"
  proof
    fix r show "caller s \<noteq> Returned r"
    proof
      assume "caller s = Returned r"
      with assms(1) have "pending work s = {#}" by (simp add: inv_def Let_def)
      then have "concat (tasks s) = []" by (simp add: pending_def)
      with i have "tasks s ! i = []" by simp
      with ar show False by simp
    qed
  qed
  from assms(2) i ar have t': "tasks s' = (tasks s)[i := rest]" and c': "caller s' = caller s"
    and cap': "errCap s' = errCap s"
    by (auto simp: stepTask_def split: action.splits event.splits if_splits)
  note pend = pending_task [OF i ar t' c', of work]
  note cnt = concat_update_head [OF i ar]
  from assms(1) have last: "\<forall>t \<in> set (tasks s). t = [] \<or> last t = Done"
    by (simp add: inv_def Let_def)
  have last': "\<forall>t \<in> set (tasks s'). t = [] \<or> last t = Done"
    using last_Done_update [OF last i ar] t' by simp
  show ?thesis
  proof (cases a)
    case (Perform ev)
    show ?thesis
    proof (cases ev)
      case (Warn k e)
      with Perform assms(2) i ar have "ch s' = ch s" "errChan s' = errChan s" "wg s' = wg s"
        by (auto simp: stepTask_def)
      with assms(1) pend cnt Perform Warn last' t' c' cap' notret show ?thesis
        by (auto simp: inv_def Let_def split: pc.splits)
    next
      case (Send m)
      with Perform assms(2) i ar have "ch s' = ch s @ [m]" "errChan s' = errChan s" "wg s' = wg s"
        by (auto simp: stepTask_def)
      with assms(1) pend cnt Perform Send last' t' c' cap' notret show ?thesis
        by (auto simp: inv_def Let_def split: pc.splits)
    qed
  next
    case (Deposit e)
    with assms(2) i ar have "ch s' = ch s" "errChan s' = errChan s @ [e]" "wg s' = wg s"
      by (auto simp: stepTask_def split: if_splits)
    with assms(1) pend cnt Deposit last' t' c' cap' notret show ?thesis
      by (auto simp: inv_def Let_def split: pc.splits)
  next
    case Done
    with assms(2) i ar have "ch s' = ch s" "errChan s' = errChan s" "wg s' = wg s - 1"
      by (auto simp: stepTask_def)
    with assms(1) pend cnt Done last' t' c' cap' notret show ?thesis
      by (auto simp: inv_def Let_def split: pc.splits)
  qed
qed


lemma inv_stepCaller:
  assumes "inv work pools s" and "stepCaller work s = Some s'"
  shows "inv work pools s'"
proof (cases "caller s")
  case (Spawning ps)
  show ?thesis
  proof (cases ps)
    case Nil
    with Spawning assms(2) have "s' = s\<lparr>caller := Waiting\<rparr>"
      by (simp add: stepCaller_def)
    with assms(1) Spawning Nil show ?thesis
      by (simp add: inv_def Let_def pending_def unspawned_def)
  next
    case (Cons pool rest)
    with Spawning assms(2) have
      "s' = s\<lparr>caller := Spawning rest, wg := wg s + 1, tasks := tasks s @ [goroutine work pool]\<rparr>"
      by (simp add: stepCaller_def)
    with assms(1) Spawning Cons show ?thesis
      by (simp add: inv_def Let_def pending_def unspawned_def goroutine_Done goroutine_last
            add.assoc)
  qed
next
  case Waiting
  with assms(2) have z: "wg s = 0"
    by (simp add: stepCaller_def split: if_splits)
  from assms(1) have "\<forall>t \<in> set (tasks s). t = [] \<or> last t = Done"
    and "wg s = int (count (mset (concat (tasks s))) Done)"
    by (simp_all add: inv_def Let_def)
  with z have e: "concat (tasks s) = []"
    using all_done_empty [of "tasks s"] by simp
  with Waiting have p: "pending work s = {#}"
    by (simp add: pending_def unspawned_def)
  show ?thesis
  proof (cases "errChan s")
    case Nil
    with Waiting z assms(2) have "s' = s\<lparr>caller := Returned None\<rparr>"
      by (simp add: stepCaller_def)
    with assms(1) Waiting Nil p e show ?thesis
      by (simp add: inv_def Let_def pending_def unspawned_def del: concat_eq_Nil_conv)
  next
    case (Cons err buffered)
    with Waiting z assms(2) have "s' = s\<lparr>caller := Returned (Some err), errChan := buffered\<rparr>"
      by (simp add: stepCaller_def)
    moreover from assms(1) Waiting Cons p
    have "err \<in># errorsIn (mset (concat (map (goroutine work) pools)))"
      by (auto simp: inv_def Let_def dest: sym)
    ultimately show ?thesis using assms(1) Waiting Cons p e
      by (simp add: inv_def Let_def pending_def unspawned_def del: concat_eq_Nil_conv)
  qed
next
  case (Returned r)
  with assms(2) show ?thesis by (simp add: stepCaller_def)
qed

lemma inv_step:
  assumes "inv work pools s" and "step work c s = Some s'"
  shows "inv work pools s'"
  using assms by (cases c) (auto intro: inv_stepCaller inv_stepTask)

lemma inv_run:
  assumes "inv work pools s" and "run work sched s = Some s'"
  shows "inv work pools s'"
  using assms
proof (induction sched arbitrary: s)
  case Nil
  then show ?case by simp
next
  case (Cons c cs)
  from Cons.prems(2) obtain s1 where s1: "step work c s = Some s1" "run work cs s1 = Some s'"
    by (auto split: option.splits)
  from Cons.prems(1) s1(1) have "inv work pools s1" by (rule inv_step)
  then show ?case using s1(2) by (rule Cons.IH)
qed

lemma run_append:
  "run work (xs @ ys) s = (case run work xs s of None \<Rightarrow> None | Some s' \<Rightarrow> run work ys s')"
  by (induction xs arbitrary: s) (auto split: option.splits)

lemma deposit_enabled:
  assumes "inv work pools s" and "i < length (tasks s)" and "tasks s ! i = Deposit e # rest"
  shows "length (errChan s) < errCap s"
proof -
  have notret: "\<forall>r. caller s \<noteq> Returned r"
  proof
    fix r show "caller s \<noteq> Returned r"
    proof
      assume "caller s = Returned r"
      with assms(1) have "pending work s = {#}" by (simp add: inv_def Let_def)
      then have "concat (tasks s) = []" by (simp add: pending_def)
      with assms(2) have "tasks s ! i = []" by simp
      with assms(3) show False by simp
    qed
  qed
  let ?total = "mset (concat (map (goroutine work) pools))"
  from assms(1) notret have eq: "mset (errChan s) + errorsIn (pending work s) = errorsIn ?total"
    by (cases "caller s") (simp_all add: inv_def Let_def)
  have "pending work s = add_mset (Deposit e) (pending work (s\<lparr>tasks := (tasks s)[i := rest]\<rparr>))"
    using assms(2,3) by (intro pending_task) simp_all
  then have "size (errorsIn (pending work s)) \<ge> 1" by simp
  moreover from eq have "length (errChan s) + size (errorsIn (pending work s)) = size (errorsIn ?total)"
    by (metis size_mset size_union)
  moreover have "size (errorsIn ?total) \<le> length pools" by (rule size_total_errors)
  moreover from assms(1) have "errCap s = length pools" by (simp add: inv_def Let_def)
  ultimately show ?thesis by linarith
qed

lemma progress:
  assumes "inv work pools s" and "\<forall>r. caller s \<noteq> Returned r"
  shows "\<exists>c s'. step work c s = Some s'"
proof (cases "caller s")
  case (Spawning ps)
  then have "stepCaller work s \<noteq> None"
    by (cases ps) (simp_all add: stepCaller_def)
  then show ?thesis by (metis not_Some_eq step.simps(1))
next
  case Waiting
  show ?thesis
  proof (cases "wg s = 0")
    case True
    with Waiting have "stepCaller work s \<noteq> None"
      by (simp add: stepCaller_def split: list.splits)
    then show ?thesis by (metis not_Some_eq step.simps(1))
  next
    case False
    from assms(1) have "wg s = int (count (mset (concat (tasks s))) Done)"
      by (simp add: inv_def Let_def)
    with False have "count (mset (concat (tasks s))) Done \<noteq> 0" by simp
    then have "concat (tasks s) \<noteq> []" by (metis count_empty mset.simps(1))
    then obtain t where "t \<in> set (tasks s)" "t \<noteq> []" by auto
    then obtain i where i: "i < length (tasks s)" "tasks s ! i \<noteq> []"
      by (metis in_set_conv_nth)
    then obtain a rest where ar: "tasks s ! i = a # rest"
      by (cases "tasks s ! i") simp_all
    have "stepTask i s \<noteq> None"
    proof (cases a)
      case (Perform ev)
      with i ar show ?thesis by (cases ev) (simp_all add: stepTask_def)
    next
      case (Deposit e)
      with deposit_enabled [OF assms(1) i(1)] ar have "length (errChan s) < errCap s" by simp
      with Deposit i ar show ?thesis by (simp add: stepTask_def)
    next
      case Done
      with i ar show ?thesis by (simp add: stepTask_def)
    qed
    then show ?thesis by (metis not_Some_eq step.simps(2))
  qed
next
  case (Returned r)
  with assms(2) show ?thesis by simp
qed

lemma stepsLeft_step:
  assumes "step work c s = Some s'"
  shows "stepsLeft work s' < stepsLeft work s"
proof (cases c)
  case Caller
  with assms have "stepCaller work s = Some s'" by simp
  then show ?thesis
    by (auto simp: stepCaller_def stepsLeft_def pending_def unspawned_def
          split: pc.splits list.splits if_splits)
next
  case (Task i)
  with assms have st: "stepTask i s = Some s'" by simp
  then have i: "i < length (tasks s)"
    by (simp add: stepTask_def split: if_splits)
  from st i obtain a rest where ar: "tasks s ! i = a # rest"
    by (cases "tasks s ! i") (simp_all add: stepTask_def)
  from st i ar have t': "tasks s' = (tasks s)[i := rest]" and c': "caller s' = caller s"
    by (auto simp: stepTask_def split: action.splits event.splits if_splits)
  from pending_task [OF i ar t' c', of work] c' show ?thesis
    by (simp add: stepsLeft_def)
qed

lemma run_bounded:
  assumes "run work sched s = Some s'"
  shows "length sched + stepsLeft work s' \<le> stepsLeft work s"
  using assms
proof (induction sched arbitrary: s)
  case Nil
  then show ?case by simp
next
  case (Cons c cs)
  from Cons.prems obtain s1 where s1: "step work c s = Some s1" "run work cs s1 = Some s'"
    by (auto split: option.splits)
  from stepsLeft_step [OF s1(1)] Cons.IH [OF s1(2)] show ?case by simp
qed

lemma completes:
  assumes "inv work pools s"
  shows "\<exists>sched s' r. run work sched s = Some s' \<and> caller s' = Returned r"
  using assms
proof (induction "stepsLeft work s" arbitrary: s rule: less_induct)
  case less
  show ?case
  proof (cases "\<exists>r. caller s = Returned r")
    case True
    then obtain r where "caller s = Returned r" by blast
    then have "run work [] s = Some s \<and> caller s = Returned r" by simp
    then show ?thesis by blast
  next
    case False
    with less.prems obtain c s1 where s1: "step work c s = Some s1"
      using progress by blast
    from stepsLeft_step [OF s1] inv_step [OF less.prems s1] less.hyps [of s1]
    obtain sched s' r where "run work sched s1 = Some s'" "caller s' = Returned r"
      by blast
    with s1 have "run work (c # sched) s = Some s' \<and> caller s' = Returned r" by simp
    then show ?thesis by blast
  qed
qed


lemma failures_set:
  "set (failures work pools) = {err. \<exists>pool \<in> set pools. snd (work pool) = Some err}"
  by (induction pools) (auto split: option.splits)

lemma ch_step:
  assumes "step work c s = Some s'"
  shows "\<exists>more. ch s' = ch s @ more"
proof (cases c)
  case Caller
  with assms show ?thesis
    by (auto simp: stepCaller_def split: pc.splits list.splits if_splits)
next
  case (Task i)
  with assms show ?thesis
    by (auto simp: stepTask_def split: list.splits action.splits event.splits if_splits)
qed

lemma ch_run:
  assumes "run work sched s = Some s'"
  shows "\<exists>more. ch s' = ch s @ more"
  using assms
proof (induction sched arbitrary: s)
  case Nil
  then show ?case by simp
next
  case (Cons c cs)
  from Cons.prems obtain s1 where s1: "step work c s = Some s1" "run work cs s1 = Some s'"
    by (auto split: option.splits)
  from ch_step [OF s1(1)] Cons.IH [OF s1(2)] show ?case by auto
qed

lemma returned_result:
  assumes "inv work pools s" and "caller s = Returned r"
  shows "(case r of None \<Rightarrow> failures work pools = [] | Some err \<Rightarrow> err \<in> set (failures work pools))
         \<and> mset (ch s) = mset (emitted work pools)"
proof -
  from assms have p: "pending work s = {#}" by (simp add: inv_def Let_def)
  from assms have "case r of None \<Rightarrow> errorsIn (mset (concat (map (goroutine work) pools))) = {#}
      | Some err \<Rightarrow> err \<in># errorsIn (mset (concat (map (goroutine work) pools)))"
    by (simp add: inv_def Let_def)
  then have a: "case r of None \<Rightarrow> failures work pools = [] | Some err \<Rightarrow> err \<in> set (failures work pools)"
    by (simp add: total_errors split: option.splits)
  from assms(1) have "mset (ch s) + metricsIn (pending work s) =
      metricsIn (mset (concat (map (goroutine work) pools)))"
    by (simp add: inv_def Let_def)
  with p have "mset (ch s) = mset (emitted work pools)"
    by (simp add: total_metrics)
  with a show ?thesis by simp
qed

text \<open>
  C3. For every list of pools, some schedule lets \<open>update\<close> return, and whenever it
  has returned: the result is \<^verbatim>\<open>nil\<close> when the unit of work of every pool
  succeeded; when the unit of work of one or more pools failed, the result is one
  error, the error of one of the failing pools; and the output channel holds exactly
  the metrics that the units of work of all pools sent, those of the successful pools
  included. The channel only grows along a schedule: nothing sent is withdrawn. No
  schedule is longer than the number of steps the initial state allows, and a state in
  which the caller has not returned always has a goroutine that can take a step, so
  every schedule that is continued as long as possible ends with the caller returned.
\<close>

theorem update_one_error_partial_output:
  "(\<exists>sched s r. update c find_fn push_fn order pools sched = Some s \<and> caller s = Returned r)
   \<and> (\<forall>sched s r. update c find_fn push_fn order pools sched = Some s \<and> caller s = Returned r \<longrightarrow>
        ((\<forall>pool \<in> set pools. snd (updatePoolMetrics c find_fn push_fn order pool) = None) \<longrightarrow> r = None)
        \<and> ((\<exists>pool \<in> set pools. snd (updatePoolMetrics c find_fn push_fn order pool) \<noteq> None) \<longrightarrow>
             (\<exists>pool \<in> set pools. \<exists>err. snd (updatePoolMetrics c find_fn push_fn order pool) = Some err
                \<and> r = Some err))
        \<and> mset (ch s) = mset (emitted (updatePoolMetrics c find_fn push_fn order) pools))
   \<and> (\<forall>sched more s s'. update c find_fn push_fn order pools sched = Some s
          \<and> update c find_fn push_fn order pools (sched @ more) = Some s' \<longrightarrow>
        (\<exists>sent. ch s' = ch s @ sent))
   \<and> (\<forall>sched s. update c find_fn push_fn order pools sched = Some s \<longrightarrow>
        length sched \<le> stepsLeft (updatePoolMetrics c find_fn push_fn order) (init pools)
        \<and> ((\<forall>r. caller s \<noteq> Returned r) \<longrightarrow>
             (\<exists>next s'. step (updatePoolMetrics c find_fn push_fn order) next s = Some s')))"
proof -
  let ?W = "updatePoolMetrics c find_fn push_fn order"
  have i0: "inv ?W pools (init pools)" by (rule inv_init)
  have ex: "\<exists>sched s r. update c find_fn push_fn order pools sched = Some s \<and> caller s = Returned r"
    using completes [OF i0] by (simp add: update_def)
  have res: "((\<forall>pool \<in> set pools. snd (?W pool) = None) \<longrightarrow> r = None)
        \<and> ((\<exists>pool \<in> set pools. snd (?W pool) \<noteq> None) \<longrightarrow>
             (\<exists>pool \<in> set pools. \<exists>err. snd (?W pool) = Some err \<and> r = Some err))
        \<and> mset (ch s) = mset (emitted ?W pools)"
    if "update c find_fn push_fn order pools sched = Some s" and "caller s = Returned r"
    for sched s r
  proof -
    from that(1) have "inv ?W pools s"
      using inv_run [OF i0] by (simp add: update_def)
    from returned_result [OF this that(2)]
    have a: "case r of None \<Rightarrow> failures ?W pools = [] | Some err \<Rightarrow> err \<in> set (failures ?W pools)"
      and b: "mset (ch s) = mset (emitted ?W pools)" by simp_all
    have fs: "set (failures ?W pools) = {err. \<exists>pool \<in> set pools. snd (?W pool) = Some err}"
      by (rule failures_set)
    show ?thesis
    proof (cases r)
      case None
      with a have e: "set (failures ?W pools) = {}" by simp
      have "snd (?W pool) = None" if "pool \<in> set pools" for pool
      proof (cases "snd (?W pool)")
        case None
        then show ?thesis .
      next
        case (Some err)
        with that fs have "err \<in> set (failures ?W pools)" by auto
        with e show ?thesis by simp
      qed
      with None b show ?thesis by simp
    next
      case (Some err)
      with a fs have "\<exists>pool \<in> set pools. snd (?W pool) = Some err" by auto
      with Some b show ?thesis by auto
    qed
  qed
  have mono: "\<exists>sent. ch s' = ch s @ sent"
    if "update c find_fn push_fn order pools sched = Some s"
      and "update c find_fn push_fn order pools (sched @ more) = Some s'"
    for sched more s s'
  proof -
    from that have "run ?W more s = Some s'"
      by (simp add: update_def run_append)
    then show ?thesis by (rule ch_run)
  qed
  have live: "length sched \<le> stepsLeft ?W (init pools)
        \<and> ((\<forall>r. caller s \<noteq> Returned r) \<longrightarrow> (\<exists>next s'. step ?W next s = Some s'))"
    if "update c find_fn push_fn order pools sched = Some s" for sched s
  proof -
    from that have r: "run ?W sched (init pools) = Some s" by (simp add: update_def)
    from run_bounded [OF r] have "length sched \<le> stepsLeft ?W (init pools)" by simp
    moreover from inv_run [OF i0 r] have "inv ?W pools s" .
    then have "(\<forall>r. caller s \<noteq> Returned r) \<longrightarrow> (\<exists>next s'. step ?W next s = Some s')"
      using progress by blast
    ultimately show ?thesis by simp
  qed
  from ex res mono live show ?thesis by blast
qed

lemma example_units:
  "updatePoolMetrics exampleCollector exampleFind examplePush exampleOrder ''A'' =
     ([Send (''size_bytes'', ''1024'', [''A''])], None)"
  "updatePoolMetrics exampleCollector exampleFind examplePush exampleOrder ''B'' =
     ([], Some (OtherError ''exit status 1''))"
  "updatePoolMetrics exampleCollector exampleFind examplePush exampleOrder ''C'' =
     ([Send (''size_bytes'', ''1024'', [''C''])], None)"
  by (simp_all add: exampleCollector_def exampleFind_def examplePush_def exampleOrder_def
        exampleCommand_def updatePoolMetrics_def poolImplClient_def Properties_def newPoolImpl_def
        newPoolPropertiesImpl_def execute_def processLine_def PoolProps_def PoolIostat_def
        poolProperties_find_def poolPropertiesStore_def newProperty_def poolLabels_def)

lemma example_pass:
  "update exampleCollector exampleFind examplePush exampleOrder [''A'', ''B'', ''C''] exampleSchedule =
     Some \<lparr>caller = Returned (Some (OtherError ''exit status 1'')), tasks = [[], [], []], wg = 0,
           errChan = [], errCap = 3,
           ch = [(''size_bytes'', ''1024'', [''A'']), (''size_bytes'', ''1024'', [''C''])],
           logged = []\<rparr>"
  by (simp add: update_def exampleSchedule_def init_def stepCaller_def stepTask_def goroutine_def
        example_units)

theorem update_one_error_partial_output_witness:
  "update exampleCollector exampleFind examplePush exampleOrder [''A'', ''B'', ''C''] exampleSchedule =
     Some \<lparr>caller = Returned (Some (OtherError ''exit status 1'')), tasks = [[], [], []], wg = 0,
           errChan = [], errCap = 3,
           ch = [(''size_bytes'', ''1024'', [''A'']), (''size_bytes'', ''1024'', [''C''])],
           logged = []\<rparr>
   \<and> snd (updatePoolMetrics exampleCollector exampleFind examplePush exampleOrder ''B'') =
       Some (OtherError ''exit status 1'')
   \<and> mset [(''size_bytes'', ''1024'', [''A'']), (''size_bytes'', ''1024'', [''C''])] =
       mset (emitted (updatePoolMetrics exampleCollector exampleFind examplePush exampleOrder)
              [''A'', ''B'', ''C''])"
proof -
  let ?s = "\<lparr>caller = Returned (Some (OtherError ''exit status 1'')), tasks = [[], [], []], wg = 0,
           errChan = [], errCap = 3,
           ch = [(''size_bytes'', ''1024'', [''A'']), (''size_bytes'', ''1024'', [''C''])],
           logged = []\<rparr>"
  have r: "update exampleCollector exampleFind examplePush exampleOrder [''A'', ''B'', ''C'']
             exampleSchedule = Some ?s \<and> caller ?s = Returned (Some (OtherError ''exit status 1''))"
    by (simp add: example_pass)
  from update_one_error_partial_output
    [of exampleCollector exampleFind examplePush exampleOrder "[''A'', ''B'', ''C'']"]
  have "\<forall>sched s r.
      update exampleCollector exampleFind examplePush exampleOrder [''A'', ''B'', ''C''] sched = Some s
        \<and> caller s = Returned r \<longrightarrow>
      mset (ch s) =
        mset (emitted (updatePoolMetrics exampleCollector exampleFind examplePush exampleOrder)
               [''A'', ''B'', ''C''])"
    by blast
  from this [rule_format, OF r] r show ?thesis
    by (simp add: example_units)
qed

text \<open>
  C9. In every state that \<open>update\<close> reaches, the capacity of the error channel is the
  number of pools, a goroutine whose next operation is the send of its error finds
  room in the buffer (its step is enabled), and the schedule can be continued until
  the caller has returned.
\<close>

theorem errChan_holds_every_error:
  "(\<forall>sched s. update c find_fn push_fn order pools sched = Some s \<longrightarrow> errCap s = length pools)
   \<and> (\<forall>sched s i err rest. update c find_fn push_fn order pools sched = Some s
          \<and> i < length (tasks s) \<and> tasks s ! i = Deposit err # rest \<longrightarrow>
        length (errChan s) < errCap s \<and> stepTask i s \<noteq> None)
   \<and> (\<forall>sched s. update c find_fn push_fn order pools sched = Some s \<longrightarrow>
        (\<exists>more s' r. update c find_fn push_fn order pools (sched @ more) = Some s'
           \<and> caller s' = Returned r))"
proof -
  let ?W = "updatePoolMetrics c find_fn push_fn order"
  have i0: "inv ?W pools (init pools)" by (rule inv_init)
  have reach: "inv ?W pools s" if "update c find_fn push_fn order pools sched = Some s" for sched s
    using that inv_run [OF i0] by (simp add: update_def)
  have cap: "errCap s = length pools" if "update c find_fn push_fn order pools sched = Some s" for sched s
    using reach [OF that] by (simp add: inv_def Let_def)
  have dep: "length (errChan s) < errCap s \<and> stepTask i s \<noteq> None"
    if "update c find_fn push_fn order pools sched = Some s" and "i < length (tasks s)"
      and "tasks s ! i = Deposit err # rest" for sched s i err rest
  proof -
    from deposit_enabled [OF reach [OF that(1)] that(2,3)]
    have "length (errChan s) < errCap s" .
    with that(2,3) show ?thesis by (simp add: stepTask_def)
  qed
  have fin: "\<exists>more s' r. update c find_fn push_fn order pools (sched @ more) = Some s'
           \<and> caller s' = Returned r"
    if "update c find_fn push_fn order pools sched = Some s" for sched s
  proof -
    from completes [OF reach [OF that]]
    obtain more s' r where "run ?W more s = Some s'" "caller s' = Returned r" by blast
    with that have "update c find_fn push_fn order pools (sched @ more) = Some s' \<and> caller s' = Returned r"
      by (simp add: update_def run_append)
    then show ?thesis by blast
  qed
  from cap dep fin show ?thesis by blast
qed

theorem errChan_holds_every_error_witness:
  "update exampleCollector exampleFind examplePush exampleOrder [''A'', ''B'', ''C''] [Caller, Caller] =
     Some \<lparr>caller = Spawning [''C''],
           tasks = [[Perform (Send (''size_bytes'', ''1024'', [''A''])), Done],
                    [Deposit (OtherError ''exit status 1''), Done]],
           wg = 2, errChan = [], errCap = 3, ch = [], logged = []\<rparr>
   \<and> stepTask 1 \<lparr>caller = Spawning [''C''],
           tasks = [[Perform (Send (''size_bytes'', ''1024'', [''A''])), Done],
                    [Deposit (OtherError ''exit status 1''), Done]],
           wg = 2, errChan = [], errCap = 3, ch = ([] :: (string \<times> string \<times> string list) list),
           logged = []\<rparr> \<noteq> None"
proof -
  let ?s = "\<lparr>caller = Spawning [''C''],
           tasks = [[Perform (Send (''size_bytes'', ''1024'', [''A''])), Done],
                    [Deposit (OtherError ''exit status 1''), Done]],
           wg = 2, errChan = [], errCap = 3, ch = ([] :: (string \<times> string \<times> string list) list),
           logged = []\<rparr>"
  have r: "update exampleCollector exampleFind examplePush exampleOrder [''A'', ''B'', ''C'']
             [Caller, Caller] = Some ?s
           \<and> 1 < length (tasks ?s)
           \<and> tasks ?s ! 1 = Deposit (OtherError ''exit status 1'') # [Done]"
    by (simp add: update_def init_def stepCaller_def goroutine_def example_units)
  from errChan_holds_every_error
    [of exampleCollector exampleFind examplePush exampleOrder "[''A'', ''B'', ''C'']"]
  have "\<forall>sched s i err rest.
      update exampleCollector exampleFind examplePush exampleOrder [''A'', ''B'', ''C''] sched = Some s
        \<and> i < length (tasks s) \<and> tasks s ! i = Deposit err # rest \<longrightarrow>
      length (errChan s) < errCap s \<and> stepTask i s \<noteq> None"
    by blast
  from this [rule_format, OF r] r show ?thesis
    by simp
qed

end
